theory Spec2Isabelle
  imports Complex_Main
begin

section \<open>IntensitySegments: a shallow embedding of src/IntensitySegments.js\<close>

text \<open>
  The class keeps one field, \<open>segments\<close>, a JavaScript \<open>Map\<close> from integer points to
  intensity values ("Using Map to store intensity values for each point"). A \<open>Map\<close>
  remembers the order in which keys were first inserted, so it is modelled as an
  association list in insertion order.

  Every number of the program is an IEEE double. A double whose value is an integer
  is modelled by that integer, and every arithmetic step of the source (\<open>i++\<close> and
  \<open>+ amount\<close>) is the exact integer operation followed by rounding to the nearest
  double, ties to even, with overflow to an infinity. Up to magnitude \<open>2^53\<close> every
  integer is a double and the rounding does nothing; beyond, it does. The zero
  \<open>-0\<close> is identified with \<open>0\<close>: the class cannot tell them apart (both are falsy, a
  \<open>Map\<close> treats them as the same key, and both print as \<open>0\<close>). An \<open>amount\<close> is an
  integer, as the specification types it; an integer argument stands for the double
  that holds it.
\<close>

subsection \<open>JavaScript numbers as bounds\<close>

datatype jsnum = Num rat | NaN | PosInfinity | NegInfinity

text \<open>\<open>Number.isInteger(x)\<close>: a finite number without fractional part.\<close>

fun Number_isInteger :: "jsnum \<Rightarrow> bool" where
  "Number_isInteger (Num q) = (of_int \<lfloor>q\<rfloor> = q)"
| "Number_isInteger NaN = False"
| "Number_isInteger PosInfinity = False"
| "Number_isInteger NegInfinity = False"

text \<open>The comparison \<open>x > y\<close> on numbers; every comparison with \<open>NaN\<close> is false.\<close>

fun js_gt :: "jsnum \<Rightarrow> jsnum \<Rightarrow> bool" where
  "js_gt (Num p) (Num q) = (p > q)"
| "js_gt NaN _ = False"
| "js_gt _ NaN = False"
| "js_gt PosInfinity PosInfinity = False"
| "js_gt PosInfinity _ = True"
| "js_gt _ PosInfinity = False"
| "js_gt NegInfinity _ = False"
| "js_gt _ NegInfinity = True"

text \<open>The integer a number holds once \<open>Number.isInteger\<close> has accepted it.\<close>

fun int_of :: "jsnum \<Rightarrow> int" where
  "int_of (Num q) = \<lfloor>q\<rfloor>"
| "int_of NaN = 0"
| "int_of PosInfinity = 0"
| "int_of NegInfinity = 0"

text \<open>An integer passed as an argument.\<close>

definition jsint :: "int \<Rightarrow> jsnum" where
  "jsint i = Num (of_int i)"

subsection \<open>Double arithmetic on integers\<close>

text \<open>The number of binary digits of a positive integer.\<close>

function bit_length :: "int \<Rightarrow> nat" where
  "bit_length n = (if n \<le> 0 then 0 else Suc (bit_length (n div 2)))"
  by pat_completeness auto
termination
  by (relation "measure nat") auto

declare bit_length.simps [simp del]

text \<open>
  Rounding an integer to 53 significant binary digits, to the nearest and ties to
  even, with no bound on the exponent. An integer of magnitude at most \<open>2^53\<close> is
  kept. A larger one lies between two neighbouring multiples of the unit
  \<open>u = 2^(e - 53)\<close>, where \<open>e\<close> is its bit length.
\<close>

definition round_int :: "int \<Rightarrow> int" where
  "round_int n =
     (if \<bar>n\<bar> \<le> 2 ^ 53 then n
      else (let u = 2 ^ (bit_length \<bar>n\<bar> - 53);
                q = \<bar>n\<bar> div u;
                r = \<bar>n\<bar> mod u;
                m = (if 2 * r > u \<or> (2 * r = u \<and> odd q) then q + 1 else q)
            in sgn n * (m * u)))"

text \<open>
  The values the class stores: an integer held by a double, or an infinity. (With
  integer amounts no other value arises.)
\<close>

datatype jsval = Finite int | PlusInfinity | MinusInfinity

text \<open>
  The double nearest to an integer: the largest finite double is
  \<open>(2^53 - 1) * 2^971\<close>, and what rounds to \<open>2^1024\<close> or more overflows.
\<close>

definition round_double :: "int \<Rightarrow> jsval" where
  "round_double n =
     (let c = round_int n
      in if c \<ge> 2 ^ 1024 then PlusInfinity
         else if c \<le> - (2 ^ 1024) then MinusInfinity
         else Finite c)"

text \<open>An integer that a double holds exactly.\<close>

definition is_double :: "int \<Rightarrow> bool" where
  "is_double n = (round_double n = Finite n)"

text \<open>\<open>x + amount\<close> for a stored value \<open>x\<close> and an integer \<open>amount\<close>.\<close>

fun js_plus :: "jsval \<Rightarrow> int \<Rightarrow> jsval" where
  "js_plus (Finite v) amount = round_double (v + amount)"
| "js_plus PlusInfinity amount = PlusInfinity"
| "js_plus MinusInfinity amount = MinusInfinity"

text \<open>
  \<open>i++\<close> on the loop counter. The counter is a finite double, and the successor of
  a finite double never overflows.
\<close>

definition increment :: "int \<Rightarrow> int" where
  "increment i = round_int (i + 1)"

subsection \<open>The Map\<close>

type_synonym jsmap = "(int \<times> jsval) list"

text \<open>\<open>Map.prototype.get\<close>: \<open>None\<close> stands for \<open>undefined\<close>.\<close>

definition Map_get :: "jsmap \<Rightarrow> int \<Rightarrow> jsval option" where
  "Map_get m k = map_of m k"

text \<open>
  \<open>Map.prototype.set\<close>: an existing key keeps its place and gets the new value; a new
  key is appended.
\<close>

fun Map_set :: "jsmap \<Rightarrow> int \<Rightarrow> jsval \<Rightarrow> jsmap" where
  "Map_set [] k v = [(k, v)]"
| "Map_set ((k', v') # m) k v = (if k' = k then (k, v) # m else (k', v') # Map_set m k v)"

text \<open>\<open>Map.prototype.keys\<close>, in insertion order.\<close>

definition Map_keys :: "jsmap \<Rightarrow> int list" where
  "Map_keys m = map fst m"

text \<open>
  The expression \<open>x || d\<close> where \<open>x\<close> is the result of a \<open>get\<close>: \<open>undefined\<close> and \<open>0\<close>
  are falsy, every other integer and the infinities are truthy.
\<close>

fun js_or :: "jsval option \<Rightarrow> jsval \<Rightarrow> jsval" where
  "js_or None d = d"
| "js_or (Some (Finite v)) d = (if v = 0 then d else Finite v)"
| "js_or (Some PlusInfinity) d = PlusInfinity"
| "js_or (Some MinusInfinity) d = MinusInfinity"

subsection \<open>The class\<close>

record IntensitySegments =
  segments :: jsmap

datatype error = InvalidRange

text \<open>The constructor: \<open>this.segments = new Map()\<close>.\<close>

definition constructor :: IntensitySegments where
  "constructor = \<lparr>segments = []\<rparr>"

text \<open>
  The loop header shared by \<open>add\<close> and \<open>set\<close>:
  \<open>for (let i = from; i <= to; i++) body\<close>, acting on a state. The loop need not
  end, so the result is an option: \<open>None\<close> is a loop that runs forever.
\<close>

partial_function (option) for_loop :: "int \<Rightarrow> int \<Rightarrow> (int \<Rightarrow> 'a \<Rightarrow> 'a) \<Rightarrow> 'a \<Rightarrow> 'a option" where
  "for_loop i to body s =
     (if i \<le> to then for_loop (increment i) to body (body i s) else Some s)"

declare for_loop.simps [code]

text \<open>The body of the loop of \<open>add\<close>:
  \<open>this.segments.set(i, (this.segments.get(i) || 0) + amount)\<close>.\<close>

definition add_body :: "int \<Rightarrow> int \<Rightarrow> jsmap \<Rightarrow> jsmap" where
  "add_body amount i m = Map_set m i (js_plus (js_or (Map_get m i) (Finite 0)) amount)"

text \<open>The body of the loop of \<open>set\<close>: \<open>this.segments.set(i, amount)\<close>.\<close>

definition set_body :: "int \<Rightarrow> int \<Rightarrow> jsmap \<Rightarrow> jsmap" where
  "set_body amount i m = Map_set m i (Finite amount)"

text \<open>
  A call that returns yields what it raised (\<open>Inl\<close>) or returned (\<open>Inr\<close>), together
  with the object after the call; a call that never returns yields \<open>None\<close>.
\<close>

definition add :: "jsnum \<Rightarrow> jsnum \<Rightarrow> int \<Rightarrow> IntensitySegments \<Rightarrow> ((error + unit) \<times> IntensitySegments) option" where
  "add from to amount this =
     (if \<not> Number_isInteger from \<or> \<not> Number_isInteger to \<or> js_gt from to
      then Some (Inl InvalidRange, this)
      else map_option (\<lambda>m. (Inr (), this\<lparr>segments := m\<rparr>))
             (for_loop (int_of from) (int_of to) (add_body amount) (segments this)))"

definition set_range :: "jsnum \<Rightarrow> jsnum \<Rightarrow> int \<Rightarrow> IntensitySegments \<Rightarrow> ((error + unit) \<times> IntensitySegments) option" where
  "set_range from to amount this =
     (if \<not> Number_isInteger from \<or> \<not> Number_isInteger to \<or> js_gt from to
      then Some (Inl InvalidRange, this)
      else map_option (\<lambda>m. (Inr (), this\<lparr>segments := m\<rparr>))
             (for_loop (int_of from) (int_of to) (set_body amount) (segments this)))"

subsection \<open>toString\<close>

text \<open>The decimal digits of a non-negative integer.\<close>

function decimal :: "int \<Rightarrow> string" where
  "decimal n =
     (if n < 10 then [''0123456789'' ! nat n]
      else decimal (n div 10) @ [''0123456789'' ! nat (n mod 10)])"
  by pat_completeness auto
termination
  by (relation "measure nat") auto

declare decimal.simps [simp del]

text \<open>
  A template literal prints a number with as few significant decimal digits as
  identify its double. \<open>first_repr x nd ks\<close> tries the numbers of digits \<open>ks\<close> in turn
  for the double \<open>x\<close> of \<open>nd\<close> decimal digits: with \<open>k\<close> digits, the two decimals next to
  \<open>x\<close> are \<open>lo\<close> and \<open>hi\<close>; the one that rounds to \<open>x\<close> is taken, the nearer one if both
  do, and the one with the even last digit if they are equally near.
\<close>

fun first_repr :: "int \<Rightarrow> nat \<Rightarrow> nat list \<Rightarrow> int" where
  "first_repr x nd [] = x"
| "first_repr x nd (k # ks) =
     (let u = 10 ^ (nd - k);
          lo = (x div u) * u;
          hi = lo + u;
          ok_lo = (round_double lo = Finite x);
          ok_hi = (round_double hi = Finite x)
      in if ok_lo \<and> ok_hi then
           (if x - lo < hi - x then lo
            else if hi - x < x - lo then hi
            else if even (x div u) then lo else hi)
         else if ok_lo then lo
         else if ok_hi then hi
         else first_repr x nd ks)"

definition shortest_decimal :: "int \<Rightarrow> int" where
  "shortest_decimal x =
     (let nd = length (decimal x) in first_repr x nd [1..<Suc nd])"

text \<open>
  The digits are printed in full, padded with zeros, up to 21 digits; a longer number
  is printed with an exponent.
\<close>

definition string_of_magnitude :: "int \<Rightarrow> string" where
  "string_of_magnitude x =
     (let ds = decimal (shortest_decimal x);
          n = length ds
      in if n \<le> 21 then ds
         else (case rev (dropWhile (\<lambda>c. c = CHR ''0'') (rev ds)) of
                 [] \<Rightarrow> ds
               | d # fs \<Rightarrow> (if fs = [] then [d] else d # ''.'' @ fs)
                            @ ''e+'' @ decimal (int n - 1)))"

definition string_of_int :: "int \<Rightarrow> string" where
  "string_of_int i =
     (if i < 0 then ''-'' @ string_of_magnitude (- i) else string_of_magnitude i)"

text \<open>What a template literal prints for the result of a \<open>get\<close>.\<close>

fun string_of_jsval :: "jsval \<Rightarrow> string" where
  "string_of_jsval (Finite v) = string_of_int v"
| "string_of_jsval PlusInfinity = ''Infinity''"
| "string_of_jsval MinusInfinity = ''-Infinity''"

fun string_of_value :: "jsval option \<Rightarrow> string" where
  "string_of_value None = ''undefined''"
| "string_of_value (Some v) = string_of_jsval v"

text \<open>\<open>Array.prototype.join\<close>.\<close>

fun join :: "string \<Rightarrow> string list \<Rightarrow> string" where
  "join sep [] = []"
| "join sep [x] = x"
| "join sep (x # y # ys) = x @ sep @ join sep (y # ys)"

text \<open>
  \<open>Array.from(this.segments.keys()).sort((a, b) => a - b)\<close>: a fresh array of the keys,
  sorted in ascending numeric order. The keys are finite and distinct, so the
  difference of two of them, also when rounded, has the sign of their order.
\<close>

definition sortedKeys :: "IntensitySegments \<Rightarrow> int list" where
  "sortedKeys this = sort (Map_keys (segments this))"

definition toString :: "IntensitySegments \<Rightarrow> string \<times> IntensitySegments" where
  "toString this =
     (join '', ''
        (map (\<lambda>key. string_of_int key @ '': '' @ string_of_value (Map_get (segments this) key))
           (sortedKeys this)),
      this)"

text \<open>
  The array that \<open>toString\<close> formats, before formatting: each sorted key with the
  value \<open>this.segments.get(key)\<close>.
\<close>

definition entries :: "IntensitySegments \<Rightarrow> (int \<times> jsval option) list" where
  "entries this = map (\<lambda>key. (key, Map_get (segments this) key)) (sortedKeys this)"

definition format_entry :: "int \<times> jsval option \<Rightarrow> string" where
  "format_entry e = string_of_int (fst e) @ '': '' @ string_of_value (snd e)"

subsection \<open>Reading a point\<close>

text \<open>
  The class has no query for a single point. The value it keeps for point \<open>p\<close> is
  what \<open>add\<close> itself reads before updating: \<open>this.segments.get(p) || 0\<close> ("All
  intensity values are initialized to 0").
\<close>

definition intensity :: "IntensitySegments \<Rightarrow> int \<Rightarrow> jsval" where
  "intensity this p = js_or (Map_get (segments this) p) (Finite 0)"

text \<open>
  The specification reads the rendered entries as breakpoints of a step function: the
  value at \<open>p\<close> is that of the last entry at or before \<open>p\<close>, and \<open>0\<close> before the first
  entry. This reading follows the specification's words, not the source.
\<close>

definition spec_step_value :: "IntensitySegments \<Rightarrow> int \<Rightarrow> jsval" where
  "spec_step_value this p =
     (case rev (filter (\<lambda>e. fst e \<le> p) (entries this)) of
        [] \<Rightarrow> Finite 0
      | e # _ \<Rightarrow> js_or (snd e) (Finite 0))"

text \<open>
  Canonical form, in the specification's words: no entry's value equals the value of
  the entry before it, where the value before the first entry is \<open>0\<close>.
\<close>

fun canonical_from :: "jsval option \<Rightarrow> (int \<times> jsval option) list \<Rightarrow> bool" where
  "canonical_from prev [] = True"
| "canonical_from prev (e # es) = (snd e \<noteq> prev \<and> canonical_from (snd e) es)"

definition canonical :: "(int \<times> jsval option) list \<Rightarrow> bool" where
  "canonical es = canonical_from (Some (Finite 0)) es"

text \<open>
  The textual form in the specification's words: the stored (position, value) pairs,
  in ascending order of position, each printed as \<open>key: value\<close>, joined by a comma and
  a space.
\<close>

definition spec_render :: "IntensitySegments \<Rightarrow> string" where
  "spec_render this =
     join '', ''
       (map (\<lambda>(k, v). string_of_int k @ '': '' @ string_of_jsval v)
          (sort_key fst (segments this)))"

subsection \<open>Sequences of calls\<close>

datatype call = Add int int int | Set int int int

fun perform :: "call \<Rightarrow> IntensitySegments \<Rightarrow> ((error + unit) \<times> IntensitySegments) option" where
  "perform (Add a b x) this = add (jsint a) (jsint b) x this"
| "perform (Set a b x) this = set_range (jsint a) (jsint b) x this"

text \<open>
  Calls made one after the other; an exception ends the sequence, and a call that
  never returns keeps the sequence from returning.
\<close>

fun run :: "call list \<Rightarrow> IntensitySegments \<Rightarrow> ((error + unit) \<times> IntensitySegments) option" where
  "run [] this = Some (Inr (), this)"
| "run (c # cs) this =
     (case perform c this of
        None \<Rightarrow> None
      | Some (Inl e, this') \<Rightarrow> Some (Inl e, this')
      | Some (Inr u, this') \<Rightarrow> run cs this')"

text \<open>A valid call has \<open>from \<le> to\<close>; it covers the points \<open>from, \<dots>, to\<close>.\<close>

fun valid_call :: "call \<Rightarrow> bool" where
  "valid_call (Add a b x) = (a \<le> b)"
| "valid_call (Set a b x) = (a \<le> b)"

fun covered :: "call \<Rightarrow> int set" where
  "covered (Add a b x) = {a..b}"
| "covered (Set a b x) = {a..b}"

subsection \<open>The range in which the loop counter is exact\<close>

text \<open>
  A valid range whose bounds satisfy \<open>-2^53 \<le> from\<close> and \<open>to < 2^53\<close>: every integer of
  the range is a double, and so is the successor of each.
\<close>

definition exact_range :: "int \<Rightarrow> int \<Rightarrow> bool" where
  "exact_range a b = (- (2 ^ 53) \<le> a \<and> a \<le> b \<and> b < 2 ^ 53)"

fun exact_call :: "call \<Rightarrow> bool" where
  "exact_call (Add a b x) = exact_range a b"
| "exact_call (Set a b x) = exact_range a b"

text \<open>
  Every finite stored value is an integer that a double holds. This is well-formedness
  of the modelled state: the values of the program are doubles.
\<close>

fun double_value :: "jsval \<Rightarrow> bool" where
  "double_value (Finite v) = is_double v"
| "double_value PlusInfinity = True"
| "double_value MinusInfinity = True"

definition values_are_doubles :: "IntensitySegments \<Rightarrow> bool" where
  "values_are_doubles this = list_all (\<lambda>e. double_value (snd e)) (segments this)"

text \<open>Every stored value is finite and of magnitude at most \<open>B\<close>.\<close>

fun bounded_value :: "int \<Rightarrow> jsval \<Rightarrow> bool" where
  "bounded_value B (Finite v) = (\<bar>v\<bar> \<le> B)"
| "bounded_value B PlusInfinity = False"
| "bounded_value B MinusInfinity = False"

definition bounded_values :: "int \<Rightarrow> IntensitySegments \<Rightarrow> bool" where
  "bounded_values B this = list_all (\<lambda>e. bounded_value B (snd e)) (segments this)"

text \<open>A call whose amount is an integer that a double holds.\<close>

fun double_amount :: "call \<Rightarrow> bool" where
  "double_amount (Add a b x) = is_double x"
| "double_amount (Set a b x) = is_double x"

subsection \<open>Counting the work of a call\<close>

text \<open>
  A loop body instrumented with a trace: the body acts as before, and the loop index
  of every execution is appended to the trace.
\<close>

definition traced :: "(int \<Rightarrow> 'a \<Rightarrow> 'a) \<Rightarrow> int \<Rightarrow> 'a \<times> int list \<Rightarrow> 'a \<times> int list" where
  "traced body i st = (body i (fst st), snd st @ [i])"

text \<open>
  \<open>add\<close> and \<open>set\<close> with the instrumented loop: the result of the method and the
  indices at which the loop body, hence \<open>Map.prototype.set\<close>, was executed.
\<close>

definition add_traced :: "jsnum \<Rightarrow> jsnum \<Rightarrow> int \<Rightarrow> IntensitySegments \<Rightarrow> (((error + unit) \<times> IntensitySegments) \<times> int list) option" where
  "add_traced from to amount this =
     (if \<not> Number_isInteger from \<or> \<not> Number_isInteger to \<or> js_gt from to
      then Some ((Inl InvalidRange, this), [])
      else map_option (\<lambda>r. ((Inr (), this\<lparr>segments := fst r\<rparr>), snd r))
             (for_loop (int_of from) (int_of to) (traced (add_body amount)) (segments this, [])))"

definition set_traced :: "jsnum \<Rightarrow> jsnum \<Rightarrow> int \<Rightarrow> IntensitySegments \<Rightarrow> (((error + unit) \<times> IntensitySegments) \<times> int list) option" where
  "set_traced from to amount this =
     (if \<not> Number_isInteger from \<or> \<not> Number_isInteger to \<or> js_gt from to
      then Some ((Inl InvalidRange, this), [])
      else map_option (\<lambda>r. ((Inr (), this\<lparr>segments := fst r\<rparr>), snd r))
             (for_loop (int_of from) (int_of to) (traced (set_body amount)) (segments this, [])))"

subsection \<open>Auxiliary notions for the proofs\<close>

text \<open>Both loop bodies store at key \<open>i\<close> a function of what \<open>get(i)\<close> returns.\<close>

definition modify :: "(jsval option \<Rightarrow> jsval) \<Rightarrow> int \<Rightarrow> jsmap \<Rightarrow> jsmap" where
  "modify g i m = Map_set m i (g (map_of m i))"

text \<open>The set of keys the Map holds.\<close>

definition stored_keys :: "IntensitySegments \<Rightarrow> int set" where
  "stored_keys this = set (Map_keys (segments this))"

section \<open>Properties of the Map and of the loop\<close>

lemma round_int_exact: "\<bar>n\<bar> \<le> 2 ^ 53 \<Longrightarrow> round_int n = n"
  by (simp add: round_int_def)

lemma round_double_exact: "\<bar>n\<bar> \<le> 2 ^ 53 \<Longrightarrow> round_double n = Finite n"
  by (auto simp add: round_double_def round_int_exact)

lemma increment_exact: "- (2 ^ 53) \<le> i \<Longrightarrow> i < 2 ^ 53 \<Longrightarrow> increment i = i + 1"
  by (simp add: increment_def round_int_exact)

lemma for_loop_exact:
  "- (2 ^ 53) \<le> i \<Longrightarrow> to < 2 ^ 53 \<Longrightarrow> for_loop i to body s = Some (fold body [i..to] s)"
proof (induction "nat (to + 1 - i)" arbitrary: i s)
  case 0
  then have "\<not> i \<le> to" by simp
  then show ?case by (simp add: for_loop.simps [of i])
next
  case (Suc n)
  then have le: "i \<le> to" by simp
  then have u: "[i..to] = i # [i + 1..to]" by (simp add: upto_rec1)
  from Suc.prems le have inc: "increment i = i + 1" by (simp add: increment_exact)
  from Suc.hyps(2) have n: "n = nat (to + 1 - (i + 1))" by simp
  have "for_loop (i + 1) to body (body i s) = Some (fold body [i + 1..to] (body i s))"
    using Suc.hyps(1) [OF n] Suc.prems by simp
  with le inc u show ?case by (simp add: for_loop.simps [of i])
qed

text \<open>What every execution of the body preserves holds when the loop returns.\<close>

lemma for_loop_invariant:
  assumes r: "for_loop i to body s = Some s'" and "P s" and "\<And>k m. P m \<Longrightarrow> P (body k m)"
  shows "P s'"
proof -
  have "(\<forall>k m. P m \<longrightarrow> P (body k m)) \<longrightarrow> P s \<longrightarrow> P s'"
  proof (rule for_loop.raw_induct
      [where P = "\<lambda>i to b s y. (\<forall>k m. P m \<longrightarrow> P (b k m)) \<longrightarrow> P s \<longrightarrow> P y", OF _ r])
    fix f :: "int \<Rightarrow> int \<Rightarrow> (int \<Rightarrow> 'a \<Rightarrow> 'a) \<Rightarrow> 'a \<Rightarrow> 'a option" and i to b s y
    assume IH: "\<And>i to b s y. f i to b s = Some y \<Longrightarrow>
                  (\<forall>k m. P m \<longrightarrow> P (b k m)) \<longrightarrow> P s \<longrightarrow> P y"
      and eq: "(if i \<le> to then f (increment i) to b (b i s) else Some s) = Some y"
    show "(\<forall>k m. P m \<longrightarrow> P (b k m)) \<longrightarrow> P s \<longrightarrow> P y"
    proof (cases "i \<le> to")
      case True
      with eq have "f (increment i) to b (b i s) = Some y" by simp
      from IH [OF this] show ?thesis by blast
    next
      case False
      with eq show ?thesis by simp
    qed
  qed
  with assms show ?thesis by blast
qed

text \<open>A counter that \<open>i++\<close> leaves unchanged, below the bound: the loop never ends.\<close>

lemma for_loop_stuck:
  assumes "increment i = i" and "i \<le> to"
  shows "for_loop i to body s = None"
proof (rule ccontr)
  assume "for_loop i to body s \<noteq> None"
  then obtain s' where r: "for_loop i to body s = Some s'" by blast
  have "\<not> (increment i = i \<and> i \<le> to)"
  proof (rule for_loop.raw_induct
      [where P = "\<lambda>i to b s y. \<not> (increment i = i \<and> i \<le> to)", OF _ r])
    fix f :: "int \<Rightarrow> int \<Rightarrow> (int \<Rightarrow> 'a \<Rightarrow> 'a) \<Rightarrow> 'a \<Rightarrow> 'a option" and i to b s y
    assume IH: "\<And>i to b s y. f i to b s = Some y \<Longrightarrow> \<not> (increment i = i \<and> i \<le> to)"
      and eq: "(if i \<le> to then f (increment i) to b (b i s) else Some s) = Some y"
    show "\<not> (increment i = i \<and> i \<le> to)"
    proof
      assume st: "increment i = i \<and> i \<le> to"
      with eq have "f i to b (b i s) = Some y" by simp
      from IH [OF this] st show False by blast
    qed
  qed
  with assms show False by blast
qed

lemma add_body_modify: "add_body amount = modify (\<lambda>x. js_plus (js_or x (Finite 0)) amount)"
  by (intro ext) (simp add: add_body_def modify_def Map_get_def)

lemma set_body_modify: "set_body amount = modify (\<lambda>x. Finite amount)"
  by (intro ext) (simp add: set_body_def modify_def)

lemma map_of_Map_set: "map_of (Map_set m k v) = (map_of m)(k \<mapsto> v)"
  by (induction m) (auto simp: fun_eq_iff)

lemma keys_Map_set: "map fst (Map_set m k v) = (if k \<in> fst ` set m then map fst m else map fst m @ [k])"
  by (induction m) (force+)

lemma set_keys_Map_set: "fst ` set (Map_set m k v) = insert k (fst ` set m)"
proof -
  have "set (map fst (Map_set m k v)) = insert k (set (map fst m))"
    unfolding keys_Map_set by auto
  then show ?thesis by simp
qed

lemma distinct_Map_set: "distinct (map fst m) \<Longrightarrow> distinct (map fst (Map_set m k v))"
  by (simp add: keys_Map_set)

lemma Map_set_same: "map_of m k = Some v \<Longrightarrow> Map_set m k v = m"
  by (induction m) (auto split: if_splits)

lemma Map_set_twice: "Map_set (Map_set m k v) k w = Map_set m k w"
  by (induction m) auto

lemma Map_set_commute:
  "i \<in> fst ` set m \<Longrightarrow> i \<noteq> j \<Longrightarrow> Map_set (Map_set m i v) j w = Map_set (Map_set m j w) i v"
  by (induction m) (force+)

lemma map_of_fold_modify:
  "distinct is \<Longrightarrow>
   map_of (fold (modify g) is m) p = (if p \<in> set is then Some (g (map_of m p)) else map_of m p)"
  by (induction "is" arbitrary: m) (auto simp: modify_def map_of_Map_set)

lemma keys_fold_modify: "fst ` set (fold (modify g) is m) = fst ` set m \<union> set is"
  by (induction "is" arbitrary: m) (auto simp: modify_def set_keys_Map_set)

lemma distinct_fold_modify:
  "distinct (map fst m) \<Longrightarrow> distinct (map fst (fold (modify g) is m))"
  by (induction "is" arbitrary: m) (auto simp: modify_def distinct_Map_set)

lemma fold_modify_same:
  "\<forall>i\<in>set is. \<forall>v. map_of m i = Some v \<longrightarrow> g (Some v) = v \<Longrightarrow> set is \<subseteq> fst ` set m \<Longrightarrow> fold (modify g) is m = m"
proof (induction "is")
  case Nil
  then show ?case by simp
next
  case (Cons i "is")
  from Cons.prems obtain v where v: "map_of m i = Some v"
    by (metis domD dom_map_of_conv_image_fst list.set_intros(1) subsetD)
  with Cons.prems have "modify g i m = m"
    by (simp add: modify_def Map_set_same)
  with Cons show ?case by simp
qed

lemma Map_set_fold_modify:
  "i \<notin> set is \<Longrightarrow> i \<in> fst ` set m \<Longrightarrow>
   Map_set (fold (modify g) is m) i v = fold (modify g) is (Map_set m i v)"
proof (induction "is" arbitrary: m)
  case Nil
  then show ?case by simp
next
  case (Cons j "is")
  then have ij: "i \<noteq> j" and i: "i \<notin> set is" by auto
  have "modify g j (Map_set m i v) = Map_set (modify g j m) i v"
    using Cons.prems ij Map_set_commute [of i m j v "g (map_of m j)"]
    by (simp add: modify_def map_of_Map_set)
  moreover have "i \<in> fst ` set (modify g j m)"
    using Cons.prems by (simp add: modify_def set_keys_Map_set)
  ultimately show ?case using Cons.IH [OF i] by simp
qed

text \<open>
  Two passes over the same keys amount to one pass, when at every key the second
  update applied to the result of the first is the combined update.
\<close>

lemma fold_modify_twice:
  assumes "distinct is" and "\<forall>i\<in>set is. h (Some (g (map_of m i))) = k (map_of m i)"
  shows "fold (modify h) is (fold (modify g) is m) = fold (modify k) is m"
  using assms
proof (induction "is" arbitrary: m)
  case Nil
  then show ?case by simp
next
  case (Cons i "is")
  from Cons.prems have i: "i \<notin> set is" and d: "distinct is" by auto
  define v where "v = g (map_of m i)"
  have m1: "modify g i m = Map_set m i v" by (simp add: modify_def v_def)
  have key: "i \<in> fst ` set (Map_set m i v)" by (simp add: set_keys_Map_set)
  have rd: "map_of (fold (modify g) is (Map_set m i v)) i = Some v"
    using d i by (simp add: map_of_fold_modify map_of_Map_set)
  have hv: "h (Some v) = k (map_of m i)" using Cons.prems(2) by (simp add: v_def)
  have "modify h i (fold (modify g) is (modify g i m))
      = Map_set (fold (modify g) is (Map_set m i v)) i (h (Some v))"
    unfolding m1 by (simp add: modify_def rd)
  also have "\<dots> = fold (modify g) is (Map_set (Map_set m i v) i (h (Some v)))"
    by (rule Map_set_fold_modify [OF i key])
  also have "\<dots> = fold (modify g) is (modify k i m)"
    by (simp add: Map_set_twice modify_def hv)
  finally have step: "modify h i (fold (modify g) is (modify g i m))
      = fold (modify g) is (modify k i m)" .
  have "\<forall>j\<in>set is. h (Some (g (map_of (modify k i m) j))) = k (map_of (modify k i m) j)"
    using Cons.prems(2) i by (auto simp: modify_def map_of_Map_set)
  from Cons.IH [OF d this] step show ?case by simp
qed

subsection \<open>The methods on integer arguments\<close>

lemma int_of_jsint: "int_of (jsint a) = a"
  by (simp add: jsint_def)

lemma isInteger_jsint: "Number_isInteger (jsint a)"
  by (simp add: jsint_def)

lemma js_gt_jsint: "js_gt (jsint a) (jsint b) = (a > b)"
  by (simp add: jsint_def)

lemma add_exact:
  "exact_range a b \<Longrightarrow>
   add (jsint a) (jsint b) x this =
     Some (Inr (), this\<lparr>segments :=
       fold (modify (\<lambda>v. js_plus (js_or v (Finite 0)) x)) [a..b] (segments this)\<rparr>)"
  by (simp add: exact_range_def add_def int_of_jsint isInteger_jsint js_gt_jsint
      for_loop_exact add_body_modify)

lemma set_range_exact:
  "exact_range a b \<Longrightarrow>
   set_range (jsint a) (jsint b) x this =
     Some (Inr (), this\<lparr>segments := fold (modify (\<lambda>v. Finite x)) [a..b] (segments this)\<rparr>)"
  by (simp add: exact_range_def set_range_def int_of_jsint isInteger_jsint js_gt_jsint
      for_loop_exact set_body_modify)

lemma intensity_fold_modify:
  "intensity (this\<lparr>segments := fold (modify g) [a..b] (segments this)\<rparr>) p =
     (if a \<le> p \<and> p \<le> b then js_or (Some (g (map_of (segments this) p))) (Finite 0)
      else intensity this p)"
  by (simp add: intensity_def Map_get_def map_of_fold_modify)

lemma js_or_zero_idem: "js_or (Some (js_or v (Finite 0))) (Finite 0) = js_or v (Finite 0)"
proof (cases v)
  case None
  then show ?thesis by simp
next
  case (Some w)
  then show ?thesis by (cases w) simp_all
qed

lemma js_or_Some: "js_or (Some w) (Finite 0) = w"
  by (cases w) simp_all

text \<open>A loop that \<open>i++\<close> cannot leave: the counter \<open>2^53\<close> with a bound that is no less.\<close>

lemma increment_stuck: "increment (2 ^ 53) = 2 ^ 53"
  by code_simp

lemma add_never_returns: "add (jsint (2 ^ 53)) (jsint (2 ^ 53)) x this = None"
  using for_loop_stuck [OF increment_stuck, of "2 ^ 53" "add_body x" "segments this"]
  by (simp add: add_def int_of_jsint isInteger_jsint js_gt_jsint)

lemma set_range_never_returns: "set_range (jsint (2 ^ 53)) (jsint (2 ^ 53)) x this = None"
  using for_loop_stuck [OF increment_stuck, of "2 ^ 53" "set_body x" "segments this"]
  by (simp add: set_range_def int_of_jsint isInteger_jsint js_gt_jsint)

section \<open>The effect of add and set on single points\<close>

text \<open>
  C1 (as amended). For every call \<open>add(from, to, amount)\<close> with integers
  \<open>-2^53 \<le> from \<le> to < 2^53\<close>, the call returns normally, the value kept for every
  point \<open>p\<close> with \<open>from \<le> p \<le> to\<close> becomes the double sum of its former value and
  \<open>amount\<close>, which is the former value increased by \<open>amount\<close> whenever that is of
  magnitude at most \<open>2^53\<close>, and the value kept for every point outside the closed
  range is unchanged. The loop runs while \<open>i <= to\<close>, so the point \<open>to\<close> itself is
  updated.
\<close>

theorem add_effect_inclusive:
  "exact_range a b \<Longrightarrow>
   \<exists>this'. add (jsint a) (jsint b) amount this = Some (Inr (), this') \<and>
     (\<forall>p. intensity this' p =
        (if a \<le> p \<and> p \<le> b then js_plus (intensity this p) amount else intensity this p)) \<and>
     (\<forall>p v. a \<le> p \<and> p \<le> b \<and> intensity this p = Finite v \<and> \<bar>v + amount\<bar> \<le> 2 ^ 53 \<longrightarrow>
        intensity this' p = Finite (v + amount))"
proof -
  assume e: "exact_range a b"
  let ?s = "this\<lparr>segments :=
       fold (modify (\<lambda>v. js_plus (js_or v (Finite 0)) amount)) [a..b] (segments this)\<rparr>"
  have i: "intensity ?s p =
        (if a \<le> p \<and> p \<le> b then js_plus (intensity this p) amount else intensity this p)" for p
    by (simp add: intensity_fold_modify js_or_Some) (simp add: intensity_def Map_get_def)
  have "intensity ?s p = Finite (v + amount)"
    if "a \<le> p \<and> p \<le> b \<and> intensity this p = Finite v \<and> \<bar>v + amount\<bar> \<le> 2 ^ 53" for p v
    using that by (simp add: i round_double_exact)
  with i add_exact [OF e, of amount this] show ?thesis by blast
qed

theorem add_effect_inclusive_witness:
  "\<exists>this'. add (jsint 1) (jsint 5) 10 constructor = Some (Inr (), this') \<and>
     intensity this' 5 = Finite 10 \<and> intensity this' 6 = Finite 0"
proof -
  have h: "exact_range 1 5" by (simp add: exact_range_def)
  have z: "intensity constructor 5 = Finite 0" "intensity constructor 6 = Finite 0"
    by (simp_all add: intensity_def constructor_def Map_get_def)
  from add_effect_inclusive [OF h, of 10 constructor] obtain this' where
    r: "add (jsint 1) (jsint 5) 10 constructor = Some (Inr (), this')"
    and e: "\<forall>p v. 1 \<le> p \<and> p \<le> 5 \<and> intensity constructor p = Finite v \<and> \<bar>v + 10\<bar> \<le> 2 ^ 53 \<longrightarrow>
        intensity this' p = Finite (v + 10)"
    and o: "\<forall>p. intensity this' p =
        (if 1 \<le> p \<and> p \<le> 5 then js_plus (intensity constructor p) 10 else intensity constructor p)"
    by blast
  have "(1::int) \<le> 5 \<and> (5::int) \<le> 5 \<and> intensity constructor 5 = Finite 0 \<and> \<bar>(0::int) + 10\<bar> \<le> 2 ^ 53"
    using z by simp
  with e have "intensity this' 5 = Finite (0 + 10)" by blast
  then have "intensity this' 5 = Finite 10" by simp
  moreover from o z have "intensity this' 6 = Finite 0" by simp
  ultimately show ?thesis using r by blast
qed

text \<open>
  The half-open reading fails at the point \<open>to\<close>: after \<open>add(1, 5, 10)\<close> on the new
  object the value at point 5 has changed from 0 to 10, under the per-point reading
  and under the specification's breakpoint reading alike. Inside the range the
  increase is the double sum: on the value \<open>2^53 - 1\<close>, stored by \<open>set(1, 1, 2^53 - 1)\<close>,
  the call \<open>add(1, 2, 2)\<close> leaves \<open>2^53\<close> at the point 1, not \<open>2^53 + 1\<close>.
\<close>

theorem add_half_open_counterexample:
  "add (jsint 1) (jsint 5) 10 constructor
     = Some (Inr (), \<lparr>segments = [(1, Finite 10), (2, Finite 10), (3, Finite 10),
                                   (4, Finite 10), (5, Finite 10)]\<rparr>) \<and>
   intensity constructor 5 = Finite 0 \<and>
   intensity \<lparr>segments = [(1, Finite 10), (2, Finite 10), (3, Finite 10),
                          (4, Finite 10), (5, Finite 10)]\<rparr> 5 = Finite 10 \<and>
   spec_step_value constructor 5 = Finite 0 \<and>
   spec_step_value \<lparr>segments = [(1, Finite 10), (2, Finite 10), (3, Finite 10),
                                (4, Finite 10), (5, Finite 10)]\<rparr> 5 = Finite 10 \<and>
   run [Set 1 1 9007199254740991, Add 1 2 2] constructor
     = Some (Inr (), \<lparr>segments = [(1, Finite 9007199254740992), (2, Finite 2)]\<rparr>)"
  by code_simp

text \<open>
  C2 (as amended). For every call \<open>set(from, to, amount)\<close> with integers
  \<open>-2^53 \<le> from \<le> to < 2^53\<close>, the call returns normally, afterwards the value kept
  for every point \<open>p\<close> with \<open>from \<le> p \<le> to\<close> is exactly \<open>amount\<close> whatever it was
  before, and the value kept for every point outside the closed range is unchanged.
\<close>

theorem set_effect_inclusive:
  "exact_range a b \<Longrightarrow>
   \<exists>this'. set_range (jsint a) (jsint b) amount this = Some (Inr (), this') \<and>
     (\<forall>p. intensity this' p = (if a \<le> p \<and> p \<le> b then Finite amount else intensity this p))"
proof -
  assume e: "exact_range a b"
  let ?s = "this\<lparr>segments := fold (modify (\<lambda>v. Finite amount)) [a..b] (segments this)\<rparr>"
  have "intensity ?s p = (if a \<le> p \<and> p \<le> b then Finite amount else intensity this p)" for p
    by (simp add: intensity_fold_modify)
  with set_range_exact [OF e, of amount this] show ?thesis by blast
qed

theorem set_effect_inclusive_witness:
  "\<exists>this'. set_range (jsint 3) (jsint 4) 5
       \<lparr>segments = [(1, Finite 10), (2, Finite 10), (3, Finite 10), (4, Finite 10), (5, Finite 10)]\<rparr>
     = Some (Inr (), this') \<and>
     intensity this' 4 = Finite 5 \<and> intensity this' 5 = Finite 10"
proof -
  let ?s = "\<lparr>segments = [(1, Finite 10), (2, Finite 10), (3, Finite 10), (4, Finite 10), (5, Finite 10)]\<rparr>"
  have h: "exact_range 3 4" by (simp add: exact_range_def)
  have z: "intensity ?s 5 = Finite 10" by (simp add: intensity_def Map_get_def)
  from set_effect_inclusive [OF h, of 5 ?s] obtain this' where
    r: "set_range (jsint 3) (jsint 4) 5 ?s = Some (Inr (), this')"
    and o: "\<forall>p. intensity this' p = (if 3 \<le> p \<and> p \<le> 4 then Finite 5 else intensity ?s p)"
    by blast
  from o have "intensity this' 4 = Finite 5" by simp
  moreover from o z have "intensity this' 5 = Finite 10" by simp
  ultimately show ?thesis using r by blast
qed

text \<open>
  The half-open reading fails at the point \<open>to\<close>: after \<open>add(1, 5, 10)\<close>, the call
  \<open>set(3, 4, 5)\<close> changes the value at point 4 from 10 to 5. Below \<open>-2^53\<close> the loop
  counter skips integers: \<open>set(-(2^53 + 2), -2^53, 7)\<close> leaves the value 0 at the point
  \<open>-(2^53 + 1)\<close> of its range.
\<close>

theorem set_half_open_counterexample:
  "run [Add 1 5 10, Set 3 4 5] constructor
     = Some (Inr (), \<lparr>segments = [(1, Finite 10), (2, Finite 10), (3, Finite 5),
                                   (4, Finite 5), (5, Finite 10)]\<rparr>) \<and>
   intensity \<lparr>segments = [(1, Finite 10), (2, Finite 10), (3, Finite 10),
                          (4, Finite 10), (5, Finite 10)]\<rparr> 4 = Finite 10 \<and>
   intensity \<lparr>segments = [(1, Finite 10), (2, Finite 10), (3, Finite 5),
                          (4, Finite 5), (5, Finite 10)]\<rparr> 4 = Finite 5 \<and>
   spec_step_value \<lparr>segments = [(1, Finite 10), (2, Finite 10), (3, Finite 10),
                                (4, Finite 10), (5, Finite 10)]\<rparr> 4 = Finite 10 \<and>
   spec_step_value \<lparr>segments = [(1, Finite 10), (2, Finite 10), (3, Finite 5),
                                (4, Finite 5), (5, Finite 10)]\<rparr> 4 = Finite 5 \<and>
   set_range (jsint (- 9007199254740994)) (jsint (- 9007199254740992)) 7 constructor
     = Some (Inr (), \<lparr>segments = [(- 9007199254740994, Finite 7), (- 9007199254740992, Finite 7)]\<rparr>) \<and>
   intensity \<lparr>segments = [(- 9007199254740994, Finite 7), (- 9007199254740992, Finite 7)]\<rparr>
     (- 9007199254740993) = Finite 0"
  by code_simp

section \<open>Invalid ranges\<close>

text \<open>
  C3. Both \<open>add\<close> and \<open>set\<close> raise \<open>InvalidRange\<close> exactly when \<open>from > to\<close> or one of
  the bounds is not an integer, whatever the integer \<open>amount\<close> is; when the error is
  raised the object is the one before the call. For integer bounds the error is
  raised exactly when \<open>from > to\<close>.
\<close>

theorem invalid_range_iff_unchanged:
  "(\<exists>s. add from to amount this = Some (Inl InvalidRange, s)) =
     (js_gt from to \<or> \<not> Number_isInteger from \<or> \<not> Number_isInteger to) \<and>
   (\<exists>s. set_range from to amount this = Some (Inl InvalidRange, s)) =
     (js_gt from to \<or> \<not> Number_isInteger from \<or> \<not> Number_isInteger to) \<and>
   (\<forall>s. add from to amount this = Some (Inl InvalidRange, s) \<longrightarrow> s = this) \<and>
   (\<forall>s. set_range from to amount this = Some (Inl InvalidRange, s) \<longrightarrow> s = this) \<and>
   (add (jsint a) (jsint b) amount this = Some (Inl InvalidRange, this)) = (a > b) \<and>
   (set_range (jsint a) (jsint b) amount this = Some (Inl InvalidRange, this)) = (a > b)"
  by (auto simp: add_def set_range_def isInteger_jsint js_gt_jsint)

theorem invalid_range_iff_unchanged_witness:
  "add (jsint 5) (jsint 1) 10
       \<lparr>segments = [(1, Finite 10), (2, Finite 10), (3, Finite 10), (4, Finite 10), (5, Finite 10)]\<rparr>
     = Some (Inl InvalidRange,
       \<lparr>segments = [(1, Finite 10), (2, Finite 10), (3, Finite 10), (4, Finite 10), (5, Finite 10)]\<rparr>) \<and>
   (\<exists>s. set_range (Num (3 / 2)) (jsint 4) 0
       \<lparr>segments = [(1, Finite 10), (2, Finite 10), (3, Finite 10), (4, Finite 10), (5, Finite 10)]\<rparr>
     = Some (Inl InvalidRange, s))"
proof -
  let ?s = "\<lparr>segments = [(1, Finite 10), (2, Finite 10), (3, Finite 10), (4, Finite 10), (5, Finite 10)]\<rparr>"
  have h1: "(5::int) > 1" by simp
  have h2: "js_gt (Num (3 / 2)) (jsint 4) \<or> \<not> Number_isInteger (Num (3 / 2)) \<or> \<not> Number_isInteger (jsint 4)"
    by code_simp
  show ?thesis
    using h1 h2
      invalid_range_iff_unchanged [of "jsint 5" "jsint 1" 10 ?s 5 1]
      invalid_range_iff_unchanged [of "Num (3 / 2)" "jsint 4" 0 ?s]
    by blast
qed

section \<open>Keys along a sequence of calls\<close>

lemma add_jsint:
  "add (jsint a) (jsint b) x this =
     (if a > b then Some (Inl InvalidRange, this)
      else map_option (\<lambda>m. (Inr (), this\<lparr>segments := m\<rparr>))
             (for_loop a b (add_body x) (segments this)))"
  by (simp add: add_def int_of_jsint isInteger_jsint js_gt_jsint)

lemma set_range_jsint:
  "set_range (jsint a) (jsint b) x this =
     (if a > b then Some (Inl InvalidRange, this)
      else map_option (\<lambda>m. (Inr (), this\<lparr>segments := m\<rparr>))
             (for_loop a b (set_body x) (segments this)))"
  by (simp add: set_range_def int_of_jsint isInteger_jsint js_gt_jsint)

text \<open>
  What a call returns is the object with its Map run through the loop, or the
  object itself.
\<close>

lemma perform_cases:
  assumes "perform c this = Some (r, s)"
  obtains "s = this"
  | a b body m where "for_loop a b body (segments this) = Some m" and "s = this\<lparr>segments := m\<rparr>"
      and "\<And>k m'. \<exists>v. body k m' = Map_set m' k v"
proof (cases c)
  case (Add a b x)
  show ?thesis
  proof (cases "a > b")
    case True
    with assms Add have "s = this" by (simp add: add_jsint)
    then show ?thesis by (rule that(1))
  next
    case False
    with assms Add obtain m where "for_loop a b (add_body x) (segments this) = Some m"
      and "s = this\<lparr>segments := m\<rparr>"
      by (auto simp: add_jsint)
    moreover have "\<And>k m'. \<exists>v. add_body x k m' = Map_set m' k v"
      unfolding add_body_def by blast
    ultimately show ?thesis by (rule that(2))
  qed
next
  case (Set a b x)
  show ?thesis
  proof (cases "a > b")
    case True
    with assms Set have "s = this" by (simp add: set_range_jsint)
    then show ?thesis by (rule that(1))
  next
    case False
    with assms Set obtain m where "for_loop a b (set_body x) (segments this) = Some m"
      and "s = this\<lparr>segments := m\<rparr>"
      by (auto simp: set_range_jsint)
    moreover have "\<And>k m'. \<exists>v. set_body x k m' = Map_set m' k v"
      unfolding set_body_def by blast
    ultimately show ?thesis by (rule that(2))
  qed
qed

lemma perform_distinct:
  assumes "perform c this = Some (r, s)" and "distinct (Map_keys (segments this))"
  shows "distinct (Map_keys (segments s))"
  using assms(1)
proof (cases rule: perform_cases)
  case 1
  with assms(2) show ?thesis by simp
next
  case (2 a b body m)
  have "distinct (map fst m)"
  proof (rule for_loop_invariant [OF 2(1), where P = "\<lambda>m. distinct (map fst m)"])
    show "distinct (map fst (segments this))" using assms(2) by (simp add: Map_keys_def)
    show "distinct (map fst (body k m'))" if "distinct (map fst m')" for k m'
      using 2(3) [of k m'] that by (auto simp: distinct_Map_set)
  qed
  with 2(2) show ?thesis by (simp add: Map_keys_def)
qed

lemma perform_keys_mono:
  assumes "perform c this = Some (r, s)"
  shows "stored_keys this \<subseteq> stored_keys s"
  using assms
proof (cases rule: perform_cases)
  case 1
  then show ?thesis by simp
next
  case (2 a b body m)
  have "fst ` set (segments this) \<subseteq> fst ` set m"
  proof (rule for_loop_invariant [OF 2(1), where P = "\<lambda>m. fst ` set (segments this) \<subseteq> fst ` set m"])
    show "fst ` set (segments this) \<subseteq> fst ` set (segments this)" by simp
    show "fst ` set (segments this) \<subseteq> fst ` set (body k m')"
      if "fst ` set (segments this) \<subseteq> fst ` set m'" for k m'
    proof -
      from 2(3) [of k m'] obtain v where "body k m' = Map_set m' k v" by blast
      with that show ?thesis by (auto simp: set_keys_Map_set)
    qed
  qed
  with 2(2) show ?thesis by (simp add: stored_keys_def Map_keys_def)
qed

lemma run_keys_mono: "run cs this = Some (r, s) \<Longrightarrow> stored_keys this \<subseteq> stored_keys s"
proof (induction cs arbitrary: this)
  case Nil
  then show ?case by simp
next
  case (Cons c cs)
  from Cons.prems obtain r' this' where p: "perform c this = Some (r', this')"
    by (cases "perform c this") auto
  have m: "stored_keys this \<subseteq> stored_keys this'" by (rule perform_keys_mono [OF p])
  show ?case
  proof (cases r')
    case (Inl e)
    with p Cons.prems m show ?thesis by simp
  next
    case (Inr u)
    with p Cons.prems have "run cs this' = Some (r, s)" by simp
    from Cons.IH [OF this] m show ?thesis by blast
  qed
qed

lemma run_distinct:
  "run cs this = Some (r, s) \<Longrightarrow> distinct (Map_keys (segments this)) \<Longrightarrow>
   distinct (Map_keys (segments s))"
proof (induction cs arbitrary: this)
  case Nil
  then show ?case by simp
next
  case (Cons c cs)
  from Cons.prems obtain r' this' where p: "perform c this = Some (r', this')"
    by (cases "perform c this") auto
  have d: "distinct (Map_keys (segments this'))" by (rule perform_distinct [OF p Cons.prems(2)])
  show ?case
  proof (cases r')
    case (Inl e)
    with p Cons.prems d show ?thesis by simp
  next
    case (Inr u)
    with p Cons.prems have "run cs this' = Some (r, s)" by simp
    from Cons.IH [OF this d] show ?thesis .
  qed
qed

lemma constructor_distinct: "distinct (Map_keys (segments constructor))"
  by (simp add: constructor_def Map_keys_def)

lemma stored_keys_fold_modify:
  "stored_keys (this\<lparr>segments := fold (modify g) [a..b] (segments this)\<rparr>) = stored_keys this \<union> {a..b}"
  using keys_fold_modify [of g "[a..b]" "segments this"]
  by (simp add: stored_keys_def Map_keys_def)

lemma perform_exact:
  assumes "exact_call c"
  shows "\<exists>s. perform c this = Some (Inr (), s) \<and> stored_keys s = stored_keys this \<union> covered c"
proof (cases c)
  case (Add a b x)
  with assms have "exact_range a b" by simp
  from add_exact [OF this, of x this] Add show ?thesis
    by (simp add: stored_keys_fold_modify)
next
  case (Set a b x)
  with assms have "exact_range a b" by simp
  from set_range_exact [OF this, of x this] Set show ?thesis
    by (simp add: stored_keys_fold_modify)
qed

lemma run_exact:
  "list_all exact_call cs \<Longrightarrow>
   \<exists>s. run cs this = Some (Inr (), s) \<and>
       stored_keys s = stored_keys this \<union> (\<Union>c\<in>set cs. covered c)"
proof (induction cs arbitrary: this)
  case Nil
  then show ?case by simp
next
  case (Cons c cs)
  from Cons.prems have vc: "exact_call c" and vcs: "list_all exact_call cs" by simp_all
  from perform_exact [OF vc, of this] obtain this' where
    p: "perform c this = Some (Inr (), this')"
    and k: "stored_keys this' = stored_keys this \<union> covered c" by blast
  from Cons.IH [OF vcs, of this'] obtain s where
    "run cs this' = Some (Inr (), s)"
    and "stored_keys s = stored_keys this' \<union> (\<Union>c\<in>set cs. covered c)" by blast
  with p k show ?case by auto
qed

lemma entries_keys: "map fst (entries this) = sort (Map_keys (segments this))"
  by (simp add: entries_def sortedKeys_def comp_def)

section \<open>The rendered sequence\<close>

text \<open>
  C4 (as amended). After any finite sequence of \<open>add\<close> and \<open>set\<close> calls with
  \<open>-2^53 \<le> from \<le> to < 2^53\<close>, starting from the new object, every call has returned
  normally, and the rendered sequence has exactly one entry for every integer point
  covered by the closed range \<open>from..to\<close> of some call, in strictly ascending order of
  position. Nothing merges entries: the class keeps one value per point.
\<close>

theorem rendered_keys_after_valid_calls:
  "list_all exact_call cs \<Longrightarrow>
   \<exists>s. run cs constructor = Some (Inr (), s) \<and>
       sorted_wrt (<) (map fst (entries s)) \<and>
       set (map fst (entries s)) = (\<Union>c\<in>set cs. covered c)"
proof -
  assume v: "list_all exact_call cs"
  have e: "stored_keys constructor = {}"
    by (simp add: constructor_def Map_keys_def stored_keys_def)
  from run_exact [OF v, of constructor] e obtain s where
    r: "run cs constructor = Some (Inr (), s)"
    and k: "stored_keys s = (\<Union>c\<in>set cs. covered c)" by auto
  from run_distinct [OF r constructor_distinct] k
  have "sorted_wrt (<) (map fst (entries s)) \<and>
       set (map fst (entries s)) = (\<Union>c\<in>set cs. covered c)"
    by (simp add: entries_keys strict_sorted_iff stored_keys_def)
  with r show ?thesis by blast
qed

theorem rendered_keys_after_valid_calls_witness:
  "\<exists>s. run [Add 1 5 10, Add 4 8 5, Set 3 4 5] constructor = Some (Inr (), s) \<and>
       sorted_wrt (<) (map fst (entries s)) \<and>
       set (map fst (entries s)) = {1..8}"
proof -
  have h: "list_all exact_call [Add 1 5 10, Add 4 8 5, Set 3 4 5]"
    by (simp add: exact_range_def)
  have u: "(\<Union>c\<in>set [Add 1 5 10, Add 4 8 5, Set 3 4 5]. covered c) = {1..8}" by auto
  show ?thesis using rendered_keys_after_valid_calls [OF h] unfolding u .
qed

text \<open>
  The rendered sequence is not in canonical form: after the single valid call
  \<open>add(1, 5, 10)\<close> the entries for the points 2 to 5 repeat the value of the entry
  before them.
\<close>

theorem canonical_form_counterexample:
  "list_all valid_call [Add 1 5 10] \<and>
   run [Add 1 5 10] constructor
     = Some (Inr (), \<lparr>segments = [(1, Finite 10), (2, Finite 10), (3, Finite 10),
                                   (4, Finite 10), (5, Finite 10)]\<rparr>) \<and>
   entries \<lparr>segments = [(1, Finite 10), (2, Finite 10), (3, Finite 10),
                        (4, Finite 10), (5, Finite 10)]\<rparr> =
     [(1, Some (Finite 10)), (2, Some (Finite 10)), (3, Some (Finite 10)),
      (4, Some (Finite 10)), (5, Some (Finite 10))] \<and>
   \<not> canonical (entries \<lparr>segments = [(1, Finite 10), (2, Finite 10), (3, Finite 10),
                                     (4, Finite 10), (5, Finite 10)]\<rparr>)"
  by code_simp

text \<open>
  C5 (as amended). On the new object, after the single call \<open>add(1, 5, 10)\<close>,
  \<open>toString\<close> yields one entry for each of the points 1 to 5, each with value 10; the
  value kept is 10 at the points 1 to 5 and 0 everywhere else.
\<close>

theorem add_1_5_10_renders_each_point:
  "\<exists>s. add (jsint 1) (jsint 5) 10 constructor = Some (Inr (), s) \<and>
     fst (toString s) = ''1: 10, 2: 10, 3: 10, 4: 10, 5: 10'' \<and>
     (\<forall>p. intensity s p = (if 1 \<le> p \<and> p \<le> 5 then Finite 10 else Finite 0))"
proof -
  let ?s = "\<lparr>segments = [(1, Finite 10), (2, Finite 10), (3, Finite 10),
                          (4, Finite 10), (5, Finite 10)]\<rparr>"
  have r: "add (jsint 1) (jsint 5) 10 constructor = Some (Inr (), ?s)"
    by code_simp
  have t: "fst (toString ?s) = ''1: 10, 2: 10, 3: 10, 4: 10, 5: 10''"
    by code_simp
  have "intensity ?s p = (if 1 \<le> p \<and> p \<le> 5 then Finite 10 else Finite 0)" for p
    by (simp add: intensity_def Map_get_def)
  with r t show ?thesis by blast
qed

theorem add_1_5_10_renders_each_point_witness:
  "\<exists>s. add (jsint 1) (jsint 5) 10 constructor = Some (Inr (), s) \<and>
     fst (toString s) = ''1: 10, 2: 10, 3: 10, 4: 10, 5: 10'' \<and>
     intensity s 3 = Finite 10 \<and> intensity s 6 = Finite 0"
proof -
  from add_1_5_10_renders_each_point obtain s where
    r: "add (jsint 1) (jsint 5) 10 constructor = Some (Inr (), s)"
    and t: "fst (toString s) = ''1: 10, 2: 10, 3: 10, 4: 10, 5: 10''"
    and i: "\<forall>p. intensity s p = (if 1 \<le> p \<and> p \<le> 5 then Finite 10 else Finite 0)"
    by blast
  from i have "intensity s 3 = Finite 10" "intensity s 6 = Finite 0" by simp_all
  with r t show ?thesis by blast
qed

text \<open>
  The output is not the pair of breakpoints \<open>1: 10, 5: 0\<close>, and the value at point 5
  is not 0.
\<close>

theorem add_1_5_10_breakpoints_counterexample:
  "add (jsint 1) (jsint 5) 10 constructor
     = Some (Inr (), \<lparr>segments = [(1, Finite 10), (2, Finite 10), (3, Finite 10),
                                   (4, Finite 10), (5, Finite 10)]\<rparr>) \<and>
   fst (toString \<lparr>segments = [(1, Finite 10), (2, Finite 10), (3, Finite 10),
                              (4, Finite 10), (5, Finite 10)]\<rparr>) \<noteq> ''1: 10, 5: 0'' \<and>
   entries \<lparr>segments = [(1, Finite 10), (2, Finite 10), (3, Finite 10),
                        (4, Finite 10), (5, Finite 10)]\<rparr>
     \<noteq> [(1, Some (Finite 10)), (5, Some (Finite 0))] \<and>
   intensity \<lparr>segments = [(1, Finite 10), (2, Finite 10), (3, Finite 10),
                          (4, Finite 10), (5, Finite 10)]\<rparr> 5 \<noteq> Finite 0"
  by code_simp

section \<open>The stored keys only grow\<close>

text \<open>
  C10 (as amended). After every call \<open>add(from, to, amount)\<close> or
  \<open>set(from, to, amount)\<close> with \<open>-2^53 \<le> from \<le> to < 2^53\<close> the call has returned
  normally, every integer \<open>k\<close> with \<open>from \<le> k \<le> to\<close> is a stored key and every key stored
  before the call is still stored. No call ever removes a key: whenever a sequence of
  calls returns, whatever their arguments, every key stored before it is stored after
  it.
\<close>

theorem keys_grow:
  "(exact_range a b \<longrightarrow>
      (\<exists>s. add (jsint a) (jsint b) x this = Some (Inr (), s) \<and>
           {a..b} \<subseteq> stored_keys s \<and> stored_keys this \<subseteq> stored_keys s) \<and>
      (\<exists>s. set_range (jsint a) (jsint b) x this = Some (Inr (), s) \<and>
           {a..b} \<subseteq> stored_keys s \<and> stored_keys this \<subseteq> stored_keys s)) \<and>
   (\<forall>r s. run cs this = Some (r, s) \<longrightarrow> stored_keys this \<subseteq> stored_keys s)"
proof (intro conjI impI allI)
  assume e: "exact_range a b"
  from add_exact [OF e, of x this]
  show "\<exists>s. add (jsint a) (jsint b) x this = Some (Inr (), s) \<and>
           {a..b} \<subseteq> stored_keys s \<and> stored_keys this \<subseteq> stored_keys s"
    by (simp add: stored_keys_fold_modify)
  from set_range_exact [OF e, of x this]
  show "\<exists>s. set_range (jsint a) (jsint b) x this = Some (Inr (), s) \<and>
           {a..b} \<subseteq> stored_keys s \<and> stored_keys this \<subseteq> stored_keys s"
    by (simp add: stored_keys_fold_modify)
next
  fix r s
  assume "run cs this = Some (r, s)"
  then show "stored_keys this \<subseteq> stored_keys s" by (rule run_keys_mono)
qed

theorem keys_grow_witness:
  "(\<exists>s. set_range (jsint 4) (jsint 5) 0 \<lparr>segments = [(1, Finite 10), (2, Finite 10)]\<rparr>
        = Some (Inr (), s) \<and>
      {4..5} \<subseteq> stored_keys s \<and>
      stored_keys \<lparr>segments = [(1, Finite 10), (2, Finite 10)]\<rparr> \<subseteq> stored_keys s) \<and>
   stored_keys \<lparr>segments = [(- 9007199254740994, Finite 1)]\<rparr>
     \<subseteq> stored_keys \<lparr>segments = [(- 9007199254740994, Finite 7), (- 9007199254740992, Finite 7)]\<rparr>"
proof -
  have h: "exact_range 4 5" by (simp add: exact_range_def)
  have r: "run [Set (- 9007199254740994) (- 9007199254740992) 7]
             \<lparr>segments = [(- 9007199254740994, Finite 1)]\<rparr>
           = Some (Inr (), \<lparr>segments = [(- 9007199254740994, Finite 7), (- 9007199254740992, Finite 7)]\<rparr>)"
    by code_simp
  show ?thesis
    using h r
      keys_grow [of 4 5 0 "\<lparr>segments = [(1, Finite 10), (2, Finite 10)]\<rparr>" "[]"]
      keys_grow [of 0 0 0 "\<lparr>segments = [(- 9007199254740994, Finite 1)]\<rparr>"
        "[Set (- 9007199254740994) (- 9007199254740992) 7]"]
    by blast
qed

text \<open>
  Not every integer of a valid range becomes a key: below \<open>-2^53\<close> the loop counter
  skips integers, and \<open>set(-(2^53 + 2), -2^53, 7)\<close> on the new object returns with the
  two keys \<open>-(2^53 + 2)\<close> and \<open>-2^53\<close> only.
\<close>

theorem keys_grow_counterexample:
  "valid_call (Set (- 9007199254740994) (- 9007199254740992) 7) \<and>
   set_range (jsint (- 9007199254740994)) (jsint (- 9007199254740992)) 7 constructor
     = Some (Inr (), \<lparr>segments = [(- 9007199254740994, Finite 7), (- 9007199254740992, Finite 7)]\<rparr>) \<and>
   - 9007199254740994 \<le> (- 9007199254740993 :: int) \<and>
   (- 9007199254740993 :: int) \<le> - 9007199254740992 \<and>
   - 9007199254740993 \<notin>
     stored_keys \<lparr>segments = [(- 9007199254740994, Finite 7), (- 9007199254740992, Finite 7)]\<rparr>"
  by code_simp

section \<open>Rounding twice, and the values a call leaves\<close>

text \<open>
  Rounding to a double is idempotent, so what a sum rounds to is a double. Hence the
  states the class reaches hold doubles only.
\<close>

lemma bit_length_pos: "0 < n \<Longrightarrow> 0 < bit_length n"
  by (simp add: bit_length.simps [of n])

lemma bit_length_bounds: "0 < n \<Longrightarrow> 2 ^ (bit_length n - 1) \<le> n \<and> n < 2 ^ bit_length n"
proof (induction n rule: bit_length.induct)
  case (1 n)
  show ?case
  proof (cases "n div 2 = 0")
    case True
    with 1(2) have "n = 1" by presburger
    then show ?thesis by (simp add: bit_length.simps [of 1] bit_length.simps [of 0])
  next
    case False
    with 1(2) have p: "0 < n div 2" by presburger
    from 1(2) have "\<not> n \<le> 0" by simp
    from 1(1) [OF this p] have lo: "2 ^ (bit_length (n div 2) - 1) \<le> n div 2"
      and hi: "n div 2 < 2 ^ bit_length (n div 2)" by simp_all
    obtain k where k: "bit_length (n div 2) = Suc k"
      using bit_length_pos [OF p] by (cases "bit_length (n div 2)") simp_all
    have b: "bit_length n = Suc (Suc k)" using 1(2) k by (simp add: bit_length.simps [of n])
    from lo k have "2 * 2 ^ k \<le> 2 * (n div 2)" by simp
    then have l: "(2::int) ^ Suc k \<le> n" by (simp; presburger)
    from hi k have "n div 2 + 1 \<le> 2 ^ Suc k" by simp
    then have "2 * (n div 2) + 2 \<le> 2 * 2 ^ Suc k" by simp
    then have h: "n < 2 ^ Suc (Suc k)" by (simp; presburger)
    from l h b show ?thesis by simp
  qed
qed

lemma bit_length_unique:
  assumes "2 ^ k \<le> n" and "n < 2 ^ Suc k"
  shows "bit_length n = Suc k"
proof -
  have "(0::int) < 2 ^ k" by simp
  with assms(1) have p: "0 < n" by linarith
  obtain e where e: "bit_length n = Suc e"
    using bit_length_pos [OF p] by (cases "bit_length n") simp_all
  from bit_length_bounds [OF p] e have "(2::int) ^ e \<le> n" and "n < (2::int) ^ Suc e" by simp_all
  with assms have "(2::int) ^ e < 2 ^ Suc k" and "(2::int) ^ k < 2 ^ Suc e" by linarith+
  then have "e < Suc k" and "k < Suc e"
    using power_strict_increasing_iff [of "2::int" e "Suc k"]
      power_strict_increasing_iff [of "2::int" k "Suc e"] by simp_all
  then have "e = k" by simp
  with e show ?thesis by simp
qed

lemma round_int_idem: "round_int (round_int n) = round_int n"
proof (cases "\<bar>n\<bar> \<le> 2 ^ 53")
  case True
  then show ?thesis by (simp add: round_int_exact)
next
  case False
  define a where "a = \<bar>n\<bar>"
  define e where "e = bit_length a"
  from False have a: "2 ^ 53 < a" by (simp add: a_def)
  then have pos: "0 < a" by simp
  from bit_length_bounds [OF pos] have lo: "2 ^ (e - 1) \<le> a" and hi: "a < 2 ^ e"
    by (simp_all add: e_def)
  from a hi have "(2::int) ^ 53 < 2 ^ e" by linarith
  then have e53: "53 < e" using power_strict_increasing_iff [of "2::int" 53 e] by simp
  define j where "j = e - 53"
  define u :: int where "u = 2 ^ j"
  from e53 have e_eq: "e = 53 + j" and j: "0 < j" by (simp_all add: j_def)
  have upos: "0 < u" by (simp add: u_def)
  have u2: "2 \<le> u" using j by (cases j) (simp_all add: u_def)
  from lo have lo': "2 ^ 52 * u \<le> a" by (simp add: e_eq u_def power_add)
  from hi have hi': "a < 2 ^ 53 * u" by (simp add: e_eq u_def power_add)
  define q where "q = a div u"
  define r where "r = a mod u"
  define m where "m = (if 2 * r > u \<or> (2 * r = u \<and> odd q) then q + 1 else q)"
  define c where "c = m * u"
  have q_lo: "2 ^ 52 \<le> q"
    using zdiv_mono1 [OF lo' upos] upos by (simp add: q_def)
  have qu: "q * u \<le> a"
    using div_mult_mod_eq [of a u] pos_mod_sign [OF upos, of a] unfolding q_def by linarith
  have q_hi: "q < 2 ^ 53"
  proof (rule ccontr)
    assume "\<not> q < 2 ^ 53"
    then have "2 ^ 53 * u \<le> q * u" using upos by (intro mult_right_mono) simp_all
    with qu hi' show False by linarith
  qed
  have m_lo: "2 ^ 52 \<le> m" and m_hi: "m \<le> 2 ^ 53" using q_lo q_hi by (simp_all add: m_def)
  have rn: "round_int n = sgn n * c"
    using False by (simp add: round_int_def Let_def c_def m_def q_def r_def u_def j_def e_def a_def)
  have cpos: "0 < c" using m_lo upos by (simp add: c_def)
  have n0: "n \<noteq> 0" using False by auto
  have abs_c: "\<bar>sgn n * c\<bar> = c" using cpos n0 by (simp add: abs_mult abs_sgn_eq)
  have sgn_c: "sgn (sgn n * c) = sgn n" using cpos by (simp add: sgn_mult)
  have "round_int (sgn n * c) = sgn n * c"
  proof (cases "c \<le> 2 ^ 53")
    case True
    then show ?thesis by (simp add: round_int_exact abs_c)
  next
    case big: False
    show ?thesis
    proof (cases "m < 2 ^ 53")
      case True
      have "2 ^ (52 + j) \<le> c" using m_lo upos by (simp add: c_def u_def power_add)
      moreover have "c < 2 ^ Suc (52 + j)"
        using True upos by (simp add: c_def u_def power_add)
      ultimately have bl: "bit_length c = Suc (52 + j)" by (rule bit_length_unique)
      have "Suc (52 + j) - 53 = j" by simp
      with bl have uu: "(2::int) ^ (bit_length c - 53) = u" by (simp add: u_def)
      have d: "c div u = m" and md: "c mod u = 0" using upos by (simp_all add: c_def)
      have "round_int (sgn n * c) = sgn n * (c div u * u)"
        using big upos by (simp add: round_int_def [of "sgn n * c"] abs_c Let_def uu md sgn_c)
      then show ?thesis by (simp add: d c_def)
    next
      case False
      with m_hi have m53: "m = 2 ^ 53" by simp
      then have c_eq: "c = 2 ^ (53 + j)" by (simp add: c_def u_def power_add)
      then have bl: "bit_length c = Suc (53 + j)" by (intro bit_length_unique) simp_all
      have "Suc (53 + j) - 53 = Suc j" by simp
      with bl have uu: "(2::int) ^ (bit_length c - 53) = 2 * u" by (simp add: u_def)
      have c2: "c = 2 ^ 52 * (2 * u)" by (simp add: c_def m53)
      have d: "c div (2 * u) = 2 ^ 52" and md: "c mod (2 * u) = 0"
        using upos unfolding c2 by simp_all
      have "round_int (sgn n * c) = sgn n * (c div (2 * u) * (2 * u))"
        using big upos by (simp add: round_int_def [of "sgn n * c"] abs_c Let_def uu md sgn_c)
      then show ?thesis by (simp add: d) (simp add: c2)
    qed
  qed
  with rn show ?thesis by simp
qed

lemma round_double_is_double: "double_value (round_double n)"
proof -
  have "round_double (round_int n) = Finite (round_int n)"
    if "\<not> 2 ^ 1024 \<le> round_int n" and "\<not> round_int n \<le> - (2 ^ 1024)"
    using that by (simp add: round_double_def round_int_idem Let_def)
  then show ?thesis
    by (simp add: round_double_def [of n] is_double_def Let_def)
qed

lemma js_plus_double: "double_value (js_plus v x)"
  by (cases v) (simp_all add: round_double_is_double)

lemma list_all_Map_set:
  "list_all P m \<Longrightarrow> P (k, v) \<Longrightarrow> list_all P (Map_set m k v)"
  by (induction m) auto

text \<open>
  The new object holds no value, and every call whose amount is a double leaves
  doubles only.
\<close>

lemma constructor_values_are_doubles: "values_are_doubles constructor"
  by (simp add: values_are_doubles_def constructor_def)

lemma perform_values_are_doubles:
  assumes "perform c this = Some (r, s)" and "double_amount c" and "values_are_doubles this"
  shows "values_are_doubles s"
proof (cases c)
  case (Add a b x)
  show ?thesis
  proof (cases "a > b")
    case True
    with assms Add show ?thesis by (simp add: add_jsint)
  next
    case False
    with assms(1) Add obtain m where l: "for_loop a b (add_body x) (segments this) = Some m"
      and s: "s = this\<lparr>segments := m\<rparr>"
      by (auto simp: add_jsint)
    have "list_all (\<lambda>e. double_value (snd e)) m"
    proof (rule for_loop_invariant [OF l, where P = "list_all (\<lambda>e. double_value (snd e))"])
      show "list_all (\<lambda>e. double_value (snd e)) (segments this)"
        using assms(3) by (simp add: values_are_doubles_def)
      show "list_all (\<lambda>e. double_value (snd e)) (add_body x k m')"
        if "list_all (\<lambda>e. double_value (snd e)) m'" for k m'
        using that by (simp add: add_body_def list_all_Map_set js_plus_double)
    qed
    with s show ?thesis by (simp add: values_are_doubles_def)
  qed
next
  case (Set a b x)
  show ?thesis
  proof (cases "a > b")
    case True
    with assms Set show ?thesis by (simp add: set_range_jsint)
  next
    case False
    with assms(1) Set obtain m where l: "for_loop a b (set_body x) (segments this) = Some m"
      and s: "s = this\<lparr>segments := m\<rparr>"
      by (auto simp: set_range_jsint)
    from assms(2) Set have dx: "is_double x" by simp
    have "list_all (\<lambda>e. double_value (snd e)) m"
    proof (rule for_loop_invariant [OF l, where P = "list_all (\<lambda>e. double_value (snd e))"])
      show "list_all (\<lambda>e. double_value (snd e)) (segments this)"
        using assms(3) by (simp add: values_are_doubles_def)
      show "list_all (\<lambda>e. double_value (snd e)) (set_body x k m')"
        if "list_all (\<lambda>e. double_value (snd e)) m'" for k m'
        using that dx by (simp add: set_body_def list_all_Map_set)
    qed
    with s show ?thesis by (simp add: values_are_doubles_def)
  qed
qed

lemma run_values_are_doubles:
  "run cs this = Some (r, s) \<Longrightarrow> list_all double_amount cs \<Longrightarrow> values_are_doubles this \<Longrightarrow>
   values_are_doubles s"
proof (induction cs arbitrary: this)
  case Nil
  then show ?case by simp
next
  case (Cons c cs)
  from Cons.prems(1) obtain r' this' where p: "perform c this = Some (r', this')"
    by (cases "perform c this") auto
  from Cons.prems(2) have dc: "double_amount c" and dcs: "list_all double_amount cs" by simp_all
  have d: "values_are_doubles this'"
    by (rule perform_values_are_doubles [OF p dc Cons.prems(3)])
  show ?case
  proof (cases r')
    case (Inl e)
    with p Cons.prems d show ?thesis by simp
  next
    case (Inr u)
    with p Cons.prems have "run cs this' = Some (r, s)" by simp
    from Cons.IH [OF this dcs d] show ?thesis .
  qed
qed

section \<open>Adding zero, and adding twice\<close>

lemma js_plus_zero: "double_value v \<Longrightarrow> js_plus (js_or (Some v) (Finite 0)) 0 = v"
  by (cases v) (auto simp: is_double_def round_double_exact)

lemma values_are_doubles_map_of:
  "values_are_doubles this \<Longrightarrow> map_of (segments this) i = Some v \<Longrightarrow> double_value v"
proof -
  assume a: "values_are_doubles this" and m: "map_of (segments this) i = Some v"
  from m have "(i, v) \<in> set (segments this)" by (rule map_of_SomeD)
  with a show "double_value v" by (force simp: values_are_doubles_def list_all_iff)
qed

lemma add_zero_present:
  assumes "exact_range a b" and "values_are_doubles this" and "{a..b} \<subseteq> stored_keys this"
  shows "add (jsint a) (jsint b) 0 this = Some (Inr (), this)"
proof -
  have "fold (modify (\<lambda>v. js_plus (js_or v (Finite 0)) 0)) [a..b] (segments this) = segments this"
  proof (rule fold_modify_same)
    show "\<forall>i\<in>set [a..b]. \<forall>v. map_of (segments this) i = Some v \<longrightarrow>
            js_plus (js_or (Some v) (Finite 0)) 0 = v"
      using values_are_doubles_map_of [OF assms(2)] by (auto simp: js_plus_zero)
    show "set [a..b] \<subseteq> fst ` set (segments this)"
      using assms(3) by (simp add: stored_keys_def Map_keys_def)
  qed
  with add_exact [OF assms(1), of 0 this] show ?thesis by simp
qed

lemma add_zero_intensity:
  assumes "values_are_doubles this"
  shows "js_or (Some (js_plus (js_or (map_of (segments this) p) (Finite 0)) 0)) (Finite 0)
           = js_or (map_of (segments this) p) (Finite 0)"
proof (cases "map_of (segments this) p")
  case None
  then show ?thesis by (simp add: round_double_exact)
next
  case (Some v)
  with values_are_doubles_map_of [OF assms] have "double_value v" by blast
  with Some show ?thesis by (simp add: js_plus_zero)
qed

text \<open>
  C6 (as amended). For every state whose stored values are doubles and all integers
  \<open>-2^53 \<le> a \<le> b < 2^53\<close>, the call \<open>add(a, b, 0)\<close> returns normally and leaves the
  value kept for every point unchanged, and it leaves the output of \<open>toString\<close>
  identical whenever every integer of \<open>a..b\<close> is already a stored key. In general the
  stored keys afterwards are the former ones together with all integers of \<open>a..b\<close>.
  The new object holds doubles only, and so does every state that calls with double
  amounts reach from it.
\<close>

theorem add_zero_keeps_values:
  "exact_range a b \<Longrightarrow> values_are_doubles this \<Longrightarrow>
   \<exists>s. add (jsint a) (jsint b) 0 this = Some (Inr (), s) \<and>
     (\<forall>p. intensity s p = intensity this p) \<and>
     ({a..b} \<subseteq> stored_keys this \<longrightarrow> fst (toString s) = fst (toString this)) \<and>
     stored_keys s = stored_keys this \<union> {a..b}"
proof -
  assume e: "exact_range a b" and d: "values_are_doubles this"
  let ?s = "this\<lparr>segments :=
       fold (modify (\<lambda>v. js_plus (js_or v (Finite 0)) 0)) [a..b] (segments this)\<rparr>"
  have r: "add (jsint a) (jsint b) 0 this = Some (Inr (), ?s)" by (rule add_exact [OF e])
  have i: "intensity ?s p = intensity this p" for p
    by (simp add: intensity_fold_modify add_zero_intensity [OF d]) (simp add: intensity_def Map_get_def)
  have t: "fst (toString ?s) = fst (toString this)" if "{a..b} \<subseteq> stored_keys this"
    using add_zero_present [OF e d that] r by simp
  have k: "stored_keys ?s = stored_keys this \<union> {a..b}" by (rule stored_keys_fold_modify)
  from r i t k show ?thesis by blast
qed

theorem add_zero_keeps_values_witness:
  "\<exists>s. add (jsint 2) (jsint 4) 0
        \<lparr>segments = [(1, Finite 10), (2, Finite 10), (3, Finite 0), (4, Finite 10), (5, Finite 10)]\<rparr>
      = Some (Inr (), s) \<and>
     intensity s 3
       = intensity \<lparr>segments = [(1, Finite 10), (2, Finite 10), (3, Finite 0), (4, Finite 10), (5, Finite 10)]\<rparr> 3 \<and>
     fst (toString s)
       = fst (toString \<lparr>segments = [(1, Finite 10), (2, Finite 10), (3, Finite 0), (4, Finite 10), (5, Finite 10)]\<rparr>)"
proof -
  let ?s = "\<lparr>segments = [(1, Finite 10), (2, Finite 10), (3, Finite 0), (4, Finite 10), (5, Finite 10)]\<rparr>"
  have h: "exact_range 2 4" by (simp add: exact_range_def)
  have d: "values_are_doubles ?s" by code_simp
  have k: "{2..4} \<subseteq> stored_keys ?s" by code_simp
  show ?thesis using add_zero_keeps_values [OF h d] k by blast
qed

text \<open>
  On the new object \<open>add(1, 2, 0)\<close> changes the output of \<open>toString\<close>: the loop stores
  the value 0 at the points 1 and 2, which had no entry before.
\<close>

theorem add_zero_counterexample:
  "fst (toString constructor) = '''' \<and>
   add (jsint 1) (jsint 2) 0 constructor
     = Some (Inr (), \<lparr>segments = [(1, Finite 0), (2, Finite 0)]\<rparr>) \<and>
   fst (toString \<lparr>segments = [(1, Finite 0), (2, Finite 0)]\<rparr>) = ''1: 0, 2: 0''"
  by code_simp

lemma bounded_values_map_of:
  "bounded_values B this \<Longrightarrow> map_of (segments this) i = Some v \<Longrightarrow> bounded_value B v"
proof -
  assume a: "bounded_values B this" and m: "map_of (segments this) i = Some v"
  from m have "(i, v) \<in> set (segments this)" by (rule map_of_SomeD)
  with a show "bounded_value B v" by (force simp: bounded_values_def list_all_iff)
qed

lemma add_add_value:
  assumes "0 \<le> B" and "B + \<bar>x\<bar> + \<bar>y\<bar> \<le> 2 ^ 53" and "v = None \<or> (\<exists>w. v = Some w \<and> bounded_value B w)"
  shows "js_plus (js_or (Some (js_plus (js_or v (Finite 0)) x)) (Finite 0)) y
           = js_plus (js_or v (Finite 0)) (x + y)"
proof -
  obtain n where n: "js_or v (Finite 0) = Finite n" and b: "\<bar>n\<bar> \<le> B"
  proof (cases v)
    case None
    with assms(1) show ?thesis by (intro that [of 0]) simp_all
  next
    case (Some w)
    with assms(3) have "bounded_value B w" by simp
    then obtain k where "w = Finite k" and "\<bar>k\<bar> \<le> B" by (cases w) simp_all
    with Some show ?thesis by (intro that [of k]) simp_all
  qed
  from b assms(2) have 1: "\<bar>n + x\<bar> \<le> 2 ^ 53" and 2: "\<bar>n + x + y\<bar> \<le> 2 ^ 53"
    and 3: "\<bar>n + (x + y)\<bar> \<le> 2 ^ 53" by linarith+
  show ?thesis
    using 2 by (simp add: n round_double_exact [OF 1] round_double_exact [OF 3] js_or_Some
        round_double_exact add.assoc)
qed

text \<open>
  C7 (as amended). For every state whose stored values are finite and of magnitude at
  most \<open>B\<close>, all integers \<open>-2^53 \<le> a \<le> b < 2^53\<close> and all integers \<open>x\<close>, \<open>y\<close> with
  \<open>B + |x| + |y| \<le> 2^53\<close>: none of the calls raises or runs forever, and \<open>add(a, b, x)\<close>
  followed by \<open>add(a, b, y)\<close> leaves the object in the very state that the single call
  \<open>add(a, b, x + y)\<close> leaves it in; in particular \<open>toString\<close> cannot tell the two apart.
\<close>

theorem add_additive:
  "exact_range a b \<Longrightarrow> 0 \<le> B \<Longrightarrow> bounded_values B this \<Longrightarrow> B + \<bar>x\<bar> + \<bar>y\<bar> \<le> 2 ^ 53 \<Longrightarrow>
   \<exists>s1 s2. add (jsint a) (jsint b) x this = Some (Inr (), s1) \<and>
     add (jsint a) (jsint b) y s1 = Some (Inr (), s2) \<and>
     add (jsint a) (jsint b) (x + y) this = Some (Inr (), s2)"
proof -
  assume e: "exact_range a b" and B: "0 \<le> B" and bv: "bounded_values B this"
    and xy: "B + \<bar>x\<bar> + \<bar>y\<bar> \<le> 2 ^ 53"
  let ?G = "\<lambda>x v. js_plus (js_or v (Finite 0)) x"
  let ?m = "segments this"
  have "fold (modify (?G y)) [a..b] (fold (modify (?G x)) [a..b] ?m)
      = fold (modify (?G (x + y))) [a..b] ?m"
  proof (rule fold_modify_twice)
    show "distinct [a..b]" by simp
    show "\<forall>i\<in>set [a..b]. ?G y (Some (?G x (map_of ?m i))) = ?G (x + y) (map_of ?m i)"
    proof
      fix i
      have "map_of ?m i = None \<or> (\<exists>w. map_of ?m i = Some w \<and> bounded_value B w)"
        using bounded_values_map_of [OF bv, of i] by (cases "map_of ?m i") simp_all
      from add_add_value [OF B xy this]
      show "?G y (Some (?G x (map_of ?m i))) = ?G (x + y) (map_of ?m i)" .
    qed
  qed
  with add_exact [OF e, of x this]
    add_exact [OF e, of y "this\<lparr>segments := fold (modify (?G x)) [a..b] ?m\<rparr>"]
    add_exact [OF e, of "x + y" this]
  show ?thesis by simp
qed

theorem add_additive_witness:
  "\<exists>s1 s2. add (jsint 1) (jsint 5) 10 \<lparr>segments = [(4, Finite 5), (5, Finite (- 10))]\<rparr>
       = Some (Inr (), s1) \<and>
     add (jsint 1) (jsint 5) (- 10) s1 = Some (Inr (), s2) \<and>
     add (jsint 1) (jsint 5) 0 \<lparr>segments = [(4, Finite 5), (5, Finite (- 10))]\<rparr>
       = Some (Inr (), s2)"
proof -
  let ?s = "\<lparr>segments = [(4, Finite 5), (5, Finite (- 10))]\<rparr>"
  have h: "exact_range 1 5" by (simp add: exact_range_def)
  have B: "(0::int) \<le> 10" by simp
  have bv: "bounded_values 10 ?s" by (simp add: bounded_values_def)
  have xy: "(10::int) + \<bar>10\<bar> + \<bar>- 10\<bar> \<le> 2 ^ 53" by simp
  show ?thesis using add_additive [OF h B bv xy] by simp
qed

text \<open>
  Beyond that magnitude the double sums round: on the value \<open>2^53 - 1\<close>, stored by
  \<open>set(1, 1, 2^53 - 1)\<close>, the calls \<open>add(1, 1, 2)\<close> and \<open>add(1, 1, -2)\<close> leave
  \<open>2^53 - 2\<close>, while the single call \<open>add(1, 1, 0)\<close> leaves \<open>2^53 - 1\<close>, and \<open>toString\<close>
  shows the difference.
\<close>

theorem add_additive_counterexample:
  "run [Set 1 1 9007199254740991, Add 1 1 2, Add 1 1 (- 2)] constructor
     = Some (Inr (), \<lparr>segments = [(1, Finite 9007199254740990)]\<rparr>) \<and>
   run [Set 1 1 9007199254740991, Add 1 1 (2 + - 2)] constructor
     = Some (Inr (), \<lparr>segments = [(1, Finite 9007199254740991)]\<rparr>) \<and>
   fst (toString \<lparr>segments = [(1, Finite 9007199254740990)]\<rparr>) = ''1: 9007199254740990'' \<and>
   fst (toString \<lparr>segments = [(1, Finite 9007199254740991)]\<rparr>) = ''1: 9007199254740991''"
  by code_simp

section \<open>toString\<close>

lemma map_insort_key: "map f (insort_key f x xs) = insort (f x) (map f xs)"
  by (induction xs) simp_all

lemma map_sort_key: "map f (sort_key f xs) = sort (map f xs)"
  by (induction xs) (simp_all add: map_insort_key)

lemma toString_entries: "fst (toString this) = join '', '' (map format_entry (entries this))"
  by (simp add: toString_def entries_def format_entry_def comp_def)

lemma entries_sort_key:
  assumes "distinct (Map_keys (segments this))"
  shows "entries this = map (\<lambda>e. (fst e, Some (snd e))) (sort_key fst (segments this))"
proof -
  have "entries this
      = map (\<lambda>e. (fst e, map_of (segments this) (fst e))) (sort_key fst (segments this))"
    by (simp add: entries_def sortedKeys_def Map_keys_def Map_get_def comp_def
        flip: map_sort_key [of fst])
  also have "\<dots> = map (\<lambda>e. (fst e, Some (snd e))) (sort_key fst (segments this))"
  proof (rule map_cong [OF refl])
    fix e
    assume "e \<in> set (sort_key fst (segments this))"
    then have "(fst e, snd e) \<in> set (segments this)" by simp
    with assms have "map_of (segments this) (fst e) = Some (snd e)"
      by (simp add: Map_keys_def)
    then show "(fst e, map_of (segments this) (fst e)) = (fst e, Some (snd e))" by simp
  qed
  finally show ?thesis .
qed

text \<open>
  C8. \<open>toString\<close> leaves the object as it is and returns exactly the stored
  (position, value) pairs, each printed as \<open>key: value\<close>, joined by a comma and a space,
  in strictly ascending order of the keys; on the new object it returns the empty
  string. The hypothesis is the property of a \<open>Map\<close> that its keys are distinct; the
  new object has it, and every call that returns preserves it.
\<close>

theorem toString_renders_stored_pairs:
  "distinct (Map_keys (segments this)) \<Longrightarrow>
   fst (toString this) = spec_render this \<and>
   sorted_wrt (<) (map fst (sort_key fst (segments this))) \<and>
   set (sort_key fst (segments this)) = set (segments this) \<and>
   snd (toString this) = this \<and>
   fst (toString constructor) = ''''"
proof (intro conjI)
  assume d: "distinct (Map_keys (segments this))"
  have "map format_entry (entries this)
      = map (\<lambda>(k, v). string_of_int k @ '': '' @ string_of_jsval v) (sort_key fst (segments this))"
    by (simp add: entries_sort_key [OF d] format_entry_def comp_def case_prod_unfold)
  then show "fst (toString this) = spec_render this"
    by (simp add: toString_entries spec_render_def)
  from d show "sorted_wrt (<) (map fst (sort_key fst (segments this)))"
    by (simp add: strict_sorted_iff map_sort_key Map_keys_def)
  show "set (sort_key fst (segments this)) = set (segments this)" by simp
  show "snd (toString this) = this" by (simp add: toString_def)
  show "fst (toString constructor) = ''''"
    by (simp add: toString_def constructor_def sortedKeys_def Map_keys_def)
qed

theorem toString_renders_stored_pairs_witness:
  "run [Add 4 5 (- 3), Set 1 2 10] constructor
     = Some (Inr (), \<lparr>segments = [(4, Finite (- 3)), (5, Finite (- 3)), (1, Finite 10), (2, Finite 10)]\<rparr>) \<and>
   fst (toString \<lparr>segments = [(4, Finite (- 3)), (5, Finite (- 3)), (1, Finite 10), (2, Finite 10)]\<rparr>)
     = ''1: 10, 2: 10, 4: -3, 5: -3'' \<and>
   snd (toString \<lparr>segments = [(4, Finite (- 3)), (5, Finite (- 3)), (1, Finite 10), (2, Finite 10)]\<rparr>)
     = \<lparr>segments = [(4, Finite (- 3)), (5, Finite (- 3)), (1, Finite 10), (2, Finite 10)]\<rparr>"
proof -
  let ?s = "\<lparr>segments = [(4, Finite (- 3)), (5, Finite (- 3)), (1, Finite 10), (2, Finite 10)]\<rparr>"
  have g: "run [Add 4 5 (- 3), Set 1 2 10] constructor = Some (Inr (), ?s)" by code_simp
  have d: "distinct (Map_keys (segments ?s))" by code_simp
  have r: "spec_render ?s = ''1: 10, 2: 10, 4: -3, 5: -3''" by code_simp
  show ?thesis using toString_renders_stored_pairs [OF d] r g by simp
qed

section \<open>The work of a call\<close>

lemma fold_traced: "fold (traced body) is (s, tr) = (fold body is s, tr @ is)"
  by (induction "is" arbitrary: s tr) (simp_all add: traced_def)

lemma add_traced_exact:
  "exact_range a b \<Longrightarrow>
   add_traced (jsint a) (jsint b) x this =
     Some ((Inr (), this\<lparr>segments := fold (add_body x) [a..b] (segments this)\<rparr>), [a..b])"
  by (simp add: exact_range_def add_traced_def int_of_jsint isInteger_jsint js_gt_jsint
      for_loop_exact fold_traced)

lemma set_traced_exact:
  "exact_range a b \<Longrightarrow>
   set_traced (jsint a) (jsint b) x this =
     Some ((Inr (), this\<lparr>segments := fold (set_body x) [a..b] (segments this)\<rparr>), [a..b])"
  by (simp add: exact_range_def set_traced_def int_of_jsint isInteger_jsint js_gt_jsint
      for_loop_exact fold_traced)

text \<open>
  C9 (as amended). Every \<open>add\<close> or \<open>set\<close> call with \<open>-2^53 \<le> from \<le> to < 2^53\<close>
  returns after executing its loop body, and so one \<open>Map.prototype.set\<close>, once for
  every integer of the closed range \<open>from..to\<close>, in ascending order: \<open>to - from + 1\<close>
  executions, whatever the number of stored entries. The instrumented methods return
  what the methods themselves return.
\<close>

theorem loop_visits_every_point:
  "exact_range a b \<Longrightarrow>
   (\<exists>r. add (jsint a) (jsint b) x this = Some r \<and>
        add_traced (jsint a) (jsint b) x this = Some (r, [a..b])) \<and>
   (\<exists>r. set_range (jsint a) (jsint b) x this = Some r \<and>
        set_traced (jsint a) (jsint b) x this = Some (r, [a..b])) \<and>
   length [a..b] = nat (b - a + 1)"
  by (simp add: add_traced_exact set_traced_exact add_exact set_range_exact
      add_body_modify set_body_modify)

theorem loop_visits_every_point_witness:
  "(\<exists>r. add (jsint 3) (jsint 6) 1 constructor = Some r \<and>
        add_traced (jsint 3) (jsint 6) 1 constructor = Some (r, [3, 4, 5, 6])) \<and>
   (\<exists>r. set_range (jsint 3) (jsint 6) 1 constructor = Some r \<and>
        set_traced (jsint 3) (jsint 6) 1 constructor = Some (r, [3, 4, 5, 6]))"
proof -
  have h: "exact_range 3 6" by (simp add: exact_range_def)
  have u: "[3..6] = [3, 4, 5, 6 :: int]" by code_simp
  show ?thesis using loop_visits_every_point [OF h, of 1 constructor] unfolding u by blast
qed

text \<open>
  The work is not bounded by the number of stored entries: on the new object, which
  stores none, \<open>add(0, 9, 1)\<close> runs the loop body at each of the ten integers of the
  range, \<open>add(0, 19, 1)\<close> runs it twenty times, and \<open>set\<close> does the same. The call
  \<open>add(2^53, 2^53, 1)\<close> never returns: \<open>i++\<close> leaves the counter at \<open>2^53\<close>.
\<close>

theorem work_bounded_by_breakpoints_counterexample:
  "length (segments constructor) = 0 \<and>
   map_option snd (add_traced (jsint 0) (jsint 9) 1 constructor)
     = Some [0, 1, 2, 3, 4, 5, 6, 7, 8, 9] \<and>
   map_option (length \<circ> snd) (add_traced (jsint 0) (jsint 19) 1 constructor) = Some 20 \<and>
   map_option snd (set_traced (jsint 0) (jsint 9) 1 constructor)
     = Some [0, 1, 2, 3, 4, 5, 6, 7, 8, 9] \<and>
   add (jsint (2 ^ 53)) (jsint (2 ^ 53)) 1 constructor = None"
proof -
  have "length (segments constructor) = 0 \<and>
   map_option snd (add_traced (jsint 0) (jsint 9) 1 constructor)
     = Some [0, 1, 2, 3, 4, 5, 6, 7, 8, 9] \<and>
   map_option (length \<circ> snd) (add_traced (jsint 0) (jsint 19) 1 constructor) = Some 20 \<and>
   map_option snd (set_traced (jsint 0) (jsint 9) 1 constructor)
     = Some [0, 1, 2, 3, 4, 5, 6, 7, 8, 9]"
    by code_simp
  with add_never_returns [of 1 constructor] show ?thesis by blast
qed

end
